theory Spec2Isabelle
  imports Complex_Main "HOL-Library.Sublist"
begin

section \<open>Data model (schemas/base\_claim.py)\<close>

text \<open>
  Modelling conventions.
  \<^item> A Python \<open>str\<close> is a \<open>string\<close>; a character stands for a code point below 256, so
    \<open>length\<close> is Python's \<open>len\<close> on such text.
  \<^item> A Python \<open>float\<close> is a rational number: every finite float is one. The engine adds
    the constants 1.0, 1.5 and 0.5, divides once by 5.0, multiplies by 0.7 and compares with
    0.5, 0.8 and whole numbers; on these values the comparisons of the rounded and of the exact
    results agree, so every branch taken is the branch the code takes. NaN and the infinities
    are outside the model.
  \<^item> A naive \<open>datetime\<close> of the engine is a \<open>timestamp\<close>: the number of microseconds since
    0001-01-01T00:00:00. Python compares naive datetimes by this number, \<open>timedelta(days=n)\<close>
    is \<open>n * 86400000000\<close> of them, and \<open>.date()\<close> is the quotient by the length of a day.
    Every call of \<open>datetime.utcnow()\<close> is an explicit argument \<open>now\<close>; the clock reads a
    time after the year 1, so that \<open>now - timedelta(days=365)\<close> is a datetime.
  \<^item> Logging has no effect on any result and is left out.
\<close>

type_synonym timestamp = int

definition day_us :: int where
  "day_us = 86400000000"

definition timedelta_days :: "int \<Rightarrow> int" where
  "timedelta_days n = n * day_us"

definition date_of :: "timestamp \<Rightarrow> int" where
  "date_of t = t div day_us"

datatype ClaimStatus = DRAFT | SUBMITTED | UNDER_REVIEW | APPROVED | REJECTED | PENDING_INFO

datatype ClaimType = MEDICAL | DENTAL | VISION | PRESCRIPTION | HOSPITAL | OTHER

record BaseClaim =
  claim_id :: "string option"
  claim_type :: ClaimType
  status :: ClaimStatus
  patient_name :: string
  patient_id :: string
  date_of_birth :: timestamp
  service_date :: timestamp
  provider_name :: string
  provider_id :: "string option"
  total_amount :: rat
  currency :: string
  description :: "string option"
  diagnosis_codes :: "string list option"
  procedure_codes :: "string list option"
  created_at :: timestamp
  updated_at :: timestamp
  submitted_at :: "timestamp option"

section \<open>Business rules (logic/rules.py)\<close>

definition MAX_CLAIM_AMOUNT :: rat where
  "MAX_CLAIM_AMOUNT = 100000"


definition MAX_SERVICE_AGE_DAYS :: int where
  "MAX_SERVICE_AGE_DAYS = 365"


text \<open>\<open>str.isspace\<close> on the code points below 256, and \<open>str.strip()\<close>.\<close>

definition isspace :: "char \<Rightarrow> bool" where
  "isspace ch = ((of_char ch :: nat) \<in> {9, 10, 11, 12, 13, 28, 29, 30, 31, 32, 133, 160})"

definition strip :: "string \<Rightarrow> string" where
  "strip s = rev (dropWhile isspace (rev (dropWhile isspace s)))"

text \<open>
  \<open>all(required_fields)\<close> tests the truth value of each entry: a string is true when it is
  not empty, a datetime always, a float when it is not zero.
\<close>

definition validate_basic_info :: "BaseClaim \<Rightarrow> bool" where
  "validate_basic_info claim =
     (if \<not> (patient_name claim \<noteq> [] \<and> patient_id claim \<noteq> [] \<and> True
             \<and> provider_name claim \<noteq> [] \<and> total_amount claim \<noteq> 0)
      then False
      else if length (strip (patient_name claim)) < 2 then False
      else True)"

definition check_amount_limit :: "BaseClaim \<Rightarrow> bool" where
  "check_amount_limit claim =
     (if total_amount claim > MAX_CLAIM_AMOUNT then False
      else if total_amount claim \<le> 0 then False
      else True)"

definition check_service_date :: "timestamp \<Rightarrow> BaseClaim \<Rightarrow> bool" where
  "check_service_date now claim =
     (let max_age = now - timedelta_days MAX_SERVICE_AGE_DAYS in
      if service_date claim > now then False
      else if service_date claim < max_age then False
      else True)"

text \<open>
  The ledger \<open>processed_claims\<close> is a set of keys. The source's key is the text
  \<open>f"{patient_id}_{service_date.date()}_{total_amount}"\<close>. A date prints in ten characters
  and a float prints without an underscore, so the text determines the three parts and two
  keys are equal exactly when patient id, calendar date and amount are: the key is the triple.
\<close>

type_synonym claim_key = "string \<times> int \<times> rat"

type_synonym ledger = "claim_key set"

definition claim_key_of :: "BaseClaim \<Rightarrow> claim_key" where
  "claim_key_of claim = (patient_id claim, date_of (service_date claim), total_amount claim)"

definition check_duplicate :: "BaseClaim \<Rightarrow> ledger \<Rightarrow> bool \<times> ledger" where
  "check_duplicate claim processed_claims =
     (let key = claim_key_of claim in
      if key \<in> processed_claims then (True, processed_claims)
      else (False, insert key processed_claims))"

text \<open>
  Truth values of the optional fields: \<open>None\<close>, the empty string and the empty list are false.
  \<open>len(claim.diagnosis_codes or [])\<close> is the length of the list, 0 for \<open>None\<close>.
\<close>

definition truthy_str :: "string option \<Rightarrow> bool" where
  "truthy_str s = (case s of None \<Rightarrow> False | Some t \<Rightarrow> t \<noteq> [])"

definition truthy_list :: "'a list option \<Rightarrow> bool" where
  "truthy_list xs = (case xs of None \<Rightarrow> False | Some ys \<Rightarrow> ys \<noteq> [])"

definition len_or_empty :: "'a list option \<Rightarrow> nat" where
  "len_or_empty xs = (case xs of None \<Rightarrow> 0 | Some ys \<Rightarrow> length ys)"

definition check_documentation :: "BaseClaim \<Rightarrow> rat" where
  "check_documentation claim =
     (let score0 = 0;
          max_score = 5;
          score1 = (if (case description claim of None \<Rightarrow> False
                        | Some d \<Rightarrow> d \<noteq> [] \<and> length d > 10)
                    then score0 + 1 else score0);
          score2 = (if truthy_list (diagnosis_codes claim) \<and> len_or_empty (diagnosis_codes claim) > 0
                    then score1 + 3 / 2 else score1);
          score3 = (if truthy_list (procedure_codes claim) \<and> len_or_empty (procedure_codes claim) > 0
                    then score2 + 3 / 2 else score2);
          score4 = (if truthy_str (provider_id claim) then score3 + 1 / 2 else score3);
          score5 = (if total_amount claim > 5000
                    then (if len_or_empty (diagnosis_codes claim) > 0
                             \<and> len_or_empty (procedure_codes claim) > 0
                          then score4 + 1 / 2 else score4)
                    else score4 + 1 / 2)
      in score5 / max_score)"


section \<open>Decision engine (logic/decision\_engine.py)\<close>

text \<open>
  \<open>evaluate_claim\<close> returns the triple (status, reasons, confidence). The only state it reads
  or writes is \<open>self.rules.processed_claims\<close>, passed in and returned. The amount in the
  rejection message is printed by Python's float formatting, the parameter \<open>str_float\<close>.
\<close>

type_synonym decision = "ClaimStatus \<times> string list \<times> rat"

definition evaluate_claim ::
  "(rat \<Rightarrow> string) \<Rightarrow> timestamp \<Rightarrow> BaseClaim \<Rightarrow> ledger \<Rightarrow> decision \<times> ledger" where
  "evaluate_claim str_float now claim processed_claims =
     (let reasons = [];
          confidence = 1
      in
      if \<not> validate_basic_info claim
      then ((PENDING_INFO, reasons @ [''Missing or invalid basic information''], 0),
            processed_claims)
      else if \<not> check_amount_limit claim
      then ((REJECTED,
             reasons @ [''Claim amount $'' @ str_float (total_amount claim)
                        @ '' exceeds policy limit''], 1),
            processed_claims)
      else if \<not> check_service_date now claim
      then ((REJECTED, reasons @ [''Service date is outside acceptable range''], 1),
            processed_claims)
      else
        (let (dup, processed_claims') = check_duplicate claim processed_claims;
             reasons1 = (if dup then reasons @ [''Potential duplicate claim detected'']
                         else reasons);
             confidence1 = (if dup then confidence * (7 / 10) else confidence);
             doc_score = check_documentation claim
         in
         if doc_score < 1 / 2
         then ((PENDING_INFO, reasons1 @ [''Insufficient documentation provided''], doc_score),
               processed_claims')
         else
           (let confidence2 = confidence1 * doc_score in
            if total_amount claim < 1000 \<and> confidence2 > 8 / 10
            then ((APPROVED, reasons1 @ [''Auto-approved: All criteria met''], confidence2),
                  processed_claims')
            else ((UNDER_REVIEW, reasons1 @ [''Requires manual review''], confidence2),
                  processed_claims'))))"

text \<open>
  \<open>process_batch\<close>: the dictionary \<open>results\<close> is a record, each entry of \<open>details\<close> a
  record of its four keys. The loop evaluates the claims in order, on one ledger; the clock
  reading during the evaluation of the claim at position \<open>i\<close> is \<open>clock i\<close>.
\<close>

record detail =
  detail_claim_id :: "string option"
  detail_status :: ClaimStatus
  detail_reasons :: "string list"
  detail_confidence :: rat

record batch_results =
  total :: nat
  approved :: nat
  rejected :: nat
  under_review :: nat
  pending_info :: nat
  details :: "detail list"

fun process_batch_loop ::
  "(rat \<Rightarrow> string) \<Rightarrow> (nat \<Rightarrow> timestamp) \<Rightarrow> nat \<Rightarrow> BaseClaim list \<Rightarrow> batch_results \<Rightarrow> ledger
     \<Rightarrow> batch_results \<times> ledger" where
  "process_batch_loop str_float clock i [] results processed_claims = (results, processed_claims)"
| "process_batch_loop str_float clock i (claim # rest) results processed_claims =
     (let ((status', reasons, confidence), processed_claims') =
            evaluate_claim str_float (clock i) claim processed_claims;
          results1 = results\<lparr>details := details results @
                       [\<lparr>detail_claim_id = claim_id claim, detail_status = status',
                         detail_reasons = reasons, detail_confidence = confidence\<rparr>]\<rparr>;
          results2 =
            (if status' = APPROVED then results1\<lparr>approved := approved results1 + 1\<rparr>
             else if status' = REJECTED then results1\<lparr>rejected := rejected results1 + 1\<rparr>
             else if status' = UNDER_REVIEW
               then results1\<lparr>under_review := under_review results1 + 1\<rparr>
             else if status' = PENDING_INFO
               then results1\<lparr>pending_info := pending_info results1 + 1\<rparr>
             else results1)
      in process_batch_loop str_float clock (Suc i) rest results2 processed_claims')"

definition process_batch ::
  "(rat \<Rightarrow> string) \<Rightarrow> (nat \<Rightarrow> timestamp) \<Rightarrow> BaseClaim list \<Rightarrow> ledger
     \<Rightarrow> batch_results \<times> ledger" where
  "process_batch str_float clock claims processed_claims =
     process_batch_loop str_float clock 0 claims
       \<lparr>total = length claims, approved = 0, rejected = 0, under_review = 0,
        pending_info = 0, details = []\<rparr>
       processed_claims"


definition digit_char :: "nat \<Rightarrow> char" where
  "digit_char d = char_of (48 + d)"

fun str_nat :: "nat \<Rightarrow> string" where
  "str_nat n = (if n < 10 then [digit_char n] else str_nat (n div 10) @ [digit_char (n mod 10)])"

declare str_nat.simps [simp del]




section \<open>Record construction (schemas/base\_claim.py)\<close>

text \<open>
  A raised exception is a value: \<open>ValueError\<close> with its message.
\<close>

datatype py_error = ValueError string

text \<open>
  \<open>round(v, 2)\<close> on a float rounds its exact value to the nearest multiple of 0.01, a tie to
  the even one.
\<close>

definition round_half_even :: "rat \<Rightarrow> int" where
  "round_half_even q =
     (let f = \<lfloor>q\<rfloor>; d = q - of_int f in
      if d < 1 / 2 then f
      else if d > 1 / 2 then f + 1
      else if even f then f else f + 1)"

definition round2 :: "rat \<Rightarrow> rat" where
  "round2 v = of_int (round_half_even (v * 100)) / 100"

definition validate_amount :: "rat \<Rightarrow> py_error + rat" where
  "validate_amount v =
     (if v \<le> 0 then Inl (ValueError ''Claim amount must be positive'')
      else if v > 1000000 then Inl (ValueError ''Claim amount exceeds maximum limit'')
      else Inr (round2 v))"

definition validate_service_date :: "timestamp \<Rightarrow> timestamp \<Rightarrow> py_error + timestamp" where
  "validate_service_date now v =
     (if v > now then Inl (ValueError ''Service date cannot be in the future'')
      else Inr v)"

text \<open>
  Construction of a \<open>BaseClaim\<close> from its keyword arguments (with the defaults filled in),
  as the model class runs it: each field's declared constraint first (\<open>min_length\<close>,
  \<open>max_length\<close>, \<open>gt\<close>), then the field's validator on a value that passed; the errors of all
  fields are collected in the order of the fields and raised together; without an error the
  record holds the values the validators returned.
\<close>

datatype field_error = MinLength nat | MaxLength nat | GreaterThan rat | Raised py_error

definition patient_name_errors :: "string \<Rightarrow> (string \<times> field_error) list" where
  "patient_name_errors v =
     (if length v < 1 then [(''patient_name'', MinLength 1)]
      else if length v > 200 then [(''patient_name'', MaxLength 200)]
      else [])"

definition description_errors :: "string option \<Rightarrow> (string \<times> field_error) list" where
  "description_errors v =
     (case v of None \<Rightarrow> []
      | Some d \<Rightarrow> if length d > 1000 then [(''description'', MaxLength 1000)] else [])"

definition total_amount_field :: "rat \<Rightarrow> (string \<times> field_error) list + rat" where
  "total_amount_field v =
     (if \<not> v > 0 then Inl [(''total_amount'', GreaterThan 0)]
      else case validate_amount v of
             Inl e \<Rightarrow> Inl [(''total_amount'', Raised e)]
           | Inr r \<Rightarrow> Inr r)"

definition service_date_field ::
  "timestamp \<Rightarrow> timestamp \<Rightarrow> (string \<times> field_error) list + timestamp" where
  "service_date_field now v =
     (case validate_service_date now v of
        Inl e \<Rightarrow> Inl [(''service_date'', Raised e)]
      | Inr r \<Rightarrow> Inr r)"

definition errors_of :: "('e list + 'a) \<Rightarrow> 'e list" where
  "errors_of r = (case r of Inl es \<Rightarrow> es | Inr _ \<Rightarrow> [])"

definition new_BaseClaim ::
  "timestamp \<Rightarrow> BaseClaim \<Rightarrow> (string \<times> field_error) list + BaseClaim" where
  "new_BaseClaim now kwargs =
     (let sd = service_date_field now (service_date kwargs);
          amt = total_amount_field (total_amount kwargs);
          errors = patient_name_errors (patient_name kwargs) @ errors_of sd @ errors_of amt
                   @ description_errors (description kwargs)
      in case (sd, amt) of
           (Inr sd', Inr amt') \<Rightarrow>
             if errors = [] then Inr (kwargs\<lparr>service_date := sd', total_amount := amt'\<rparr>)
             else Inl errors
         | _ \<Rightarrow> Inl errors)"

section \<open>Field validators (utils/validators.py)\<close>

text \<open>
  The regular expressions are written out on characters: \<open>\s\<close> is \<open>isspace\<close>, \<open>\d\<close> is a
  decimal digit, and \<open>$\<close> matches at the end of the text or before one final newline.
\<close>

definition isdigit :: "char \<Rightarrow> bool" where
  "isdigit ch = (48 \<le> (of_char ch :: nat) \<and> (of_char ch :: nat) \<le> 57)"

definition match_digits :: "nat \<Rightarrow> string \<Rightarrow> bool" where
  "match_digits n s =
     ((length s = n \<or> (length s = Suc n \<and> last s = CHR 0x0A)) \<and> list_all isdigit (take n s))"

definition remove_spaces_hyphens :: "string \<Rightarrow> string" where
  "remove_spaces_hyphens s = filter (\<lambda>ch. \<not> (isspace ch \<or> ch = CHR ''-'')) s"

text \<open>
  \<open>digits_of\<close> is used on the text of the number and on the doubled digits, which are
  numbers; \<open>xs[-1::-2]\<close> and \<open>xs[-2::-2]\<close> are every second entry from the last and from the
  last but one.
\<close>

definition digits_of_str :: "string \<Rightarrow> nat list" where
  "digits_of_str s = map (\<lambda>d. (of_char d :: nat) - 48) s"

fun digits_of :: "nat \<Rightarrow> nat list" where
  "digits_of n = (if n < 10 then [n] else digits_of (n div 10) @ [n mod 10])"

declare digits_of.simps [simp del]

fun every_second :: "'a list \<Rightarrow> 'a list" where
  "every_second [] = []"
| "every_second [x] = [x]"
| "every_second (x # y # xs) = x # every_second xs"

definition luhn_checksum :: "string \<Rightarrow> nat" where
  "luhn_checksum number =
     (let digits = digits_of_str number;
          odd_digits = every_second (rev digits);
          even_digits = every_second (tl (rev digits));
          checksum = sum_list odd_digits
      in fold (\<lambda>d checksum. checksum + sum_list (digits_of (d * 2))) even_digits checksum)"

definition luhn_check :: "string \<Rightarrow> bool" where
  "luhn_check number = (luhn_checksum number mod 10 = 0)"

definition validate_provider_npi :: "string \<Rightarrow> bool \<times> string option" where
  "validate_provider_npi npi =
     (if npi = [] then (True, None)
      else (let cleaned_npi = remove_spaces_hyphens npi in
            if \<not> match_digits 10 cleaned_npi then (False, Some ''NPI must be exactly 10 digits'')
            else if \<not> luhn_check cleaned_npi then (False, Some ''Invalid NPI checksum'')
            else (True, None)))"

text \<open>
  \<open>validate_date_range\<close> uses the calendar fields of a datetime, so here a datetime is the
  record of its fields; naive datetimes compare field by field. \<open>replace(year=y)\<close> builds a
  new datetime and raises \<open>ValueError\<close> when the year is outside 1..9999 or the day does not
  exist in that month of the new year. The three calls of \<open>utcnow()\<close> are the arguments
  \<open>now1\<close> (the receiver of \<open>replace\<close>), \<open>now2\<close> (its argument) and \<open>now3\<close>.
\<close>

record datetime =
  year :: nat
  month :: nat
  day :: nat
  hour :: nat
  minute :: nat
  second :: nat
  microsecond :: nat

definition is_leap :: "int \<Rightarrow> bool" where
  "is_leap y = (if y mod 400 = 0 then True else if y mod 100 = 0 then False else y mod 4 = 0)"

definition days_in_month :: "int \<Rightarrow> nat \<Rightarrow> nat" where
  "days_in_month y m =
     (if m = 2 then (if is_leap y then 29 else 28)
      else if m = 4 \<or> m = 6 \<or> m = 9 \<or> m = 11 then 30
      else 31)"

definition replace_year :: "datetime \<Rightarrow> int \<Rightarrow> py_error + datetime" where
  "replace_year dt y =
     (if y < 1 \<or> y > 9999 then Inl (ValueError (''year is out of range''))
      else if day dt > days_in_month y (month dt)
        then Inl (ValueError ''day is out of range for month'')
      else Inr (dt\<lparr>year := nat y\<rparr>))"

fun lex_less :: "nat list \<Rightarrow> nat list \<Rightarrow> bool" where
  "lex_less (x # xs) (y # ys) = (x < y \<or> (x = y \<and> lex_less xs ys))"
| "lex_less _ _ = False"

definition fields_of :: "datetime \<Rightarrow> nat list" where
  "fields_of dt = [year dt, month dt, day dt, hour dt, minute dt, second dt, microsecond dt]"

definition dt_less :: "datetime \<Rightarrow> datetime \<Rightarrow> bool" where
  "dt_less a b = lex_less (fields_of a) (fields_of b)"

definition validate_date_range ::
  "datetime \<Rightarrow> datetime \<Rightarrow> datetime \<Rightarrow> datetime \<Rightarrow> datetime
     \<Rightarrow> py_error + (bool \<times> string option)" where
  "validate_date_range now1 now2 now3 start_date end_date =
     (if dt_less end_date start_date
      then Inr (False, Some ''Start date must be before end date'')
      else case replace_year now1 (int (year now2) - 10) of
             Inl e \<Rightarrow> Inl e
           | Inr max_age \<Rightarrow>
               if dt_less start_date max_age then Inr (False, Some ''Date is too far in the past'')
               else if dt_less now3 end_date then Inr (False, Some ''Date cannot be in the future'')
               else Inr (True, None))"

section \<open>The engine as an object\<close>

text \<open>
  Python passes the claim by reference, and the engine object holds \<open>rules.processed_claims\<close>
  and \<open>decision_history\<close>. The program state is the store of claim objects together with
  the engine's two attributes. \<open>evaluate_claim\<close> reads the claim at its reference; the source
  assigns to no attribute of the claim and never to \<open>decision_history\<close>, so the state after
  the call differs from the state before in \<open>processed_claims\<close> alone.
\<close>

record program_state =
  objects :: "nat \<Rightarrow> BaseClaim"
  rules_processed_claims :: ledger
  decision_history :: "decision list"

definition DecisionEngine_evaluate_claim ::
  "(rat \<Rightarrow> string) \<Rightarrow> timestamp \<Rightarrow> nat \<Rightarrow> program_state \<Rightarrow> decision \<times> program_state" where
  "DecisionEngine_evaluate_claim str_float now ref s =
     (let (result, processed_claims') =
            evaluate_claim str_float now (objects s ref) (rules_processed_claims s)
      in (result, s\<lparr>rules_processed_claims := processed_claims'\<rparr>))"




text \<open>
  The decisions a batch takes, in order, and the ledger it leaves: the loop of
  \<open>process_batch\<close> without the bookkeeping, used to state what the loop computes.
\<close>

fun batch_decisions ::
  "(rat \<Rightarrow> string) \<Rightarrow> (nat \<Rightarrow> timestamp) \<Rightarrow> nat \<Rightarrow> BaseClaim list \<Rightarrow> ledger \<Rightarrow> decision list" where
  "batch_decisions str_float clock i [] L = []"
| "batch_decisions str_float clock i (c # cs) L =
     fst (evaluate_claim str_float (clock i) c L)
       # batch_decisions str_float clock (Suc i) cs (snd (evaluate_claim str_float (clock i) c L))"

fun batch_ledger ::
  "(rat \<Rightarrow> string) \<Rightarrow> (nat \<Rightarrow> timestamp) \<Rightarrow> nat \<Rightarrow> BaseClaim list \<Rightarrow> ledger \<Rightarrow> ledger" where
  "batch_ledger str_float clock i [] L = L"
| "batch_ledger str_float clock i (c # cs) L =
     batch_ledger str_float clock (Suc i) cs (snd (evaluate_claim str_float (clock i) c L))"

definition detail_of :: "BaseClaim \<Rightarrow> decision \<Rightarrow> detail" where
  "detail_of c d =
     \<lparr>detail_claim_id = claim_id c, detail_status = fst d,
      detail_reasons = fst (snd d), detail_confidence = snd (snd d)\<rparr>"

definition count_status :: "ClaimStatus \<Rightarrow> detail list \<Rightarrow> nat" where
  "count_status st ds = length (filter (\<lambda>d. detail_status d = st) ds)"

section \<open>Reading a decision and a batch\<close>

text \<open>The status, the reasons and the confidence of a decision returned with a ledger.\<close>

definition status_of :: "decision \<times> ledger \<Rightarrow> ClaimStatus" where
  "status_of r = fst (fst r)"


definition confidence_of :: "decision \<times> ledger \<Rightarrow> rat" where
  "confidence_of r = snd (snd (fst r))"

text \<open>The detail records a batch appends, one for each claim and its decision.\<close>

definition new_details ::
  "(rat \<Rightarrow> string) \<Rightarrow> (nat \<Rightarrow> timestamp) \<Rightarrow> nat \<Rightarrow> BaseClaim list \<Rightarrow> ledger \<Rightarrow> detail list" where
  "new_details f clock i cs L = map2 detail_of cs (batch_decisions f clock i cs L)"

text \<open>
  A claim reaches the duplicate check when it passes the three checks before it, and only
  then is its key recorded. \<open>keys_recorded clock k cs\<close> are the keys of the claims of \<open>cs\<close>
  that reach the duplicate check, the claim at position \<open>j\<close> at the clock reading
  \<open>clock (k + j)\<close>.
\<close>

definition reaches_duplicate_check :: "timestamp \<Rightarrow> BaseClaim \<Rightarrow> bool" where
  "reaches_duplicate_check now c =
     (validate_basic_info c \<and> check_amount_limit c \<and> check_service_date now c)"

definition keys_recorded :: "(nat \<Rightarrow> timestamp) \<Rightarrow> nat \<Rightarrow> BaseClaim list \<Rightarrow> claim_key set" where
  "keys_recorded clock k cs =
     {claim_key_of (cs ! j) | j. j < length cs \<and> reaches_duplicate_check (clock (k + j)) (cs ! j)}"

section \<open>The documentation score in the words of the specification\<close>

text \<open>
  The five terms of the score: 1.0 for a description longer than 10 characters, 1.5 for at
  least one diagnosis code, 1.5 for at least one procedure code, 0.5 for a provider
  identifier, and a last 0.5 that an amount of at most 5000 earns outright and a higher
  amount only with both kinds of code.
\<close>

definition description_points :: "BaseClaim \<Rightarrow> rat" where
  "description_points c =
     (case description c of None \<Rightarrow> 0 | Some s \<Rightarrow> if length s > 10 then 1 else 0)"

definition diagnosis_points :: "BaseClaim \<Rightarrow> rat" where
  "diagnosis_points c =
     (case diagnosis_codes c of None \<Rightarrow> 0 | Some xs \<Rightarrow> if length xs \<ge> 1 then 3 / 2 else 0)"

definition procedure_points :: "BaseClaim \<Rightarrow> rat" where
  "procedure_points c =
     (case procedure_codes c of None \<Rightarrow> 0 | Some xs \<Rightarrow> if length xs \<ge> 1 then 3 / 2 else 0)"

definition provider_points :: "BaseClaim \<Rightarrow> rat" where
  "provider_points c =
     (case provider_id c of None \<Rightarrow> 0 | Some s \<Rightarrow> if length s \<ge> 1 then 1 / 2 else 0)"

definition amount_points :: "BaseClaim \<Rightarrow> rat" where
  "amount_points c =
     (if total_amount c \<le> 5000 then 1 / 2
      else if diagnosis_points c > 0 \<and> procedure_points c > 0 then 1 / 2
      else 0)"

section \<open>The records of the test suite\<close>

text \<open>
  The fixture \<open>valid_claim\<close> of tests/test\_decision.py, at the clock reading
  2024-06-15T12:00:00 (\<open>test_now\<close>): its service date is ten days earlier.
\<close>

definition test_now :: timestamp where
  "test_now = 63854049600000000"

definition valid_claim :: BaseClaim where
  "valid_claim =
     \<lparr>claim_id = Some ''CLM-TEST-001'', claim_type = MEDICAL, status = DRAFT,
      patient_name = ''John Doe'', patient_id = ''PAT-123456'',
      date_of_birth = 62451129600000000, service_date = 63853185600000000,
      provider_name = ''Test Hospital'', provider_id = Some ''1234567893'',
      total_amount = 500, currency = ''USD'',
      description = Some ''Medical consultation'',
      diagnosis_codes = Some [''A00.1''], procedure_codes = Some [''99213''],
      created_at = 63854049600000000, updated_at = 63854049600000000,
      submitted_at = None\<rparr>"

text \<open>
  Python prints the float 150000.0 as \<open>150000.0\<close> and the confidence 1.0 as \<open>100.00%\<close>;
  no other number is printed below.
\<close>

definition test_str_float :: "rat \<Rightarrow> string" where
  "test_str_float v = (if v = 150000 then ''150000.0'' else ''?'')"


text \<open>
  The batch of the test suite, with the documentation complete: five claims with amounts
  500, 600, 700, 800, 900 and patient ids PAT-000000 to PAT-000004.
\<close>

definition batch_claim :: "nat \<Rightarrow> BaseClaim" where
  "batch_claim i =
     valid_claim\<lparr>claim_id := Some (''CLM-TEST-00'' @ str_nat i),
                 patient_name := ''Patient '' @ str_nat i,
                 patient_id := ''PAT-00000'' @ str_nat i,
                 total_amount := 500 + 100 * of_nat i\<rparr>"

definition test_batch :: "BaseClaim list" where
  "test_batch = map batch_claim [0, 1, 2, 3, 4]"

text \<open>A batch that holds the fixture twice.\<close>

definition repeated_batch :: "BaseClaim list" where
  "repeated_batch = [valid_claim, valid_claim]"


definition tiny_amount_claim :: BaseClaim where
  "tiny_amount_claim = valid_claim\<lparr>total_amount := 1 / 256\<rparr>"

text \<open>The clock reading 2024-02-29T12:00:00 and two dates of early 2024.\<close>

definition leap_day_noon :: datetime where
  "leap_day_noon = \<lparr>year = 2024, month = 2, day = 29, hour = 12, minute = 0, second = 0,
                     microsecond = 0\<rparr>"

definition new_year_2024 :: datetime where
  "new_year_2024 = \<lparr>year = 2024, month = 1, day = 1, hour = 0, minute = 0, second = 0,
                     microsecond = 0\<rparr>"

definition february_2024 :: datetime where
  "february_2024 = \<lparr>year = 2024, month = 2, day = 1, hour = 0, minute = 0, second = 0,
                     microsecond = 0\<rparr>"

text \<open>A program state whose claim objects are the fixture, on a new engine.\<close>

definition test_state :: program_state where
  "test_state = \<lparr>objects = (\<lambda>ref. valid_claim), rules_processed_claims = {},
                  decision_history = []\<rparr>"

section \<open>The decision pipeline\<close>

subsection \<open>The steps of \<open>evaluate_claim\<close>\<close>

lemma check_duplicate_eq:
  "check_duplicate c L = (claim_key_of c \<in> L, insert (claim_key_of c) L)"
  by (auto simp: check_duplicate_def Let_def)

lemma evaluate_claim_basic:
  "\<not> validate_basic_info c \<Longrightarrow>
   evaluate_claim f now c L = ((PENDING_INFO, [''Missing or invalid basic information''], 0), L)"
  by (simp add: evaluate_claim_def)

lemma evaluate_claim_amount:
  "validate_basic_info c \<Longrightarrow> \<not> check_amount_limit c \<Longrightarrow>
   evaluate_claim f now c L =
     ((REJECTED, [''Claim amount $'' @ f (total_amount c) @ '' exceeds policy limit''], 1), L)"
  by (simp add: evaluate_claim_def)

lemma evaluate_claim_date:
  "validate_basic_info c \<Longrightarrow> check_amount_limit c \<Longrightarrow> \<not> check_service_date now c \<Longrightarrow>
   evaluate_claim f now c L =
     ((REJECTED, [''Service date is outside acceptable range''], 1), L)"
  by (simp add: evaluate_claim_def)

lemma evaluate_claim_rest:
  "validate_basic_info c \<Longrightarrow> check_amount_limit c \<Longrightarrow> check_service_date now c \<Longrightarrow>
   evaluate_claim f now c L =
     ((if check_documentation c < 1 / 2
       then (PENDING_INFO,
             (if claim_key_of c \<in> L then [''Potential duplicate claim detected''] else [])
               @ [''Insufficient documentation provided''],
             check_documentation c)
       else if total_amount c < 1000
               \<and> (if claim_key_of c \<in> L then 7 / 10 else 1) * check_documentation c > 8 / 10
       then (APPROVED,
             (if claim_key_of c \<in> L then [''Potential duplicate claim detected''] else [])
               @ [''Auto-approved: All criteria met''],
             (if claim_key_of c \<in> L then 7 / 10 else 1) * check_documentation c)
       else (UNDER_REVIEW,
             (if claim_key_of c \<in> L then [''Potential duplicate claim detected''] else [])
               @ [''Requires manual review''],
             (if claim_key_of c \<in> L then 7 / 10 else 1) * check_documentation c)),
      insert (claim_key_of c) L)"
  by (simp add: evaluate_claim_def check_duplicate_eq Let_def)

lemma over_limit_fails: "total_amount c > MAX_CLAIM_AMOUNT \<Longrightarrow> \<not> check_amount_limit c"
  by (simp add: check_amount_limit_def)

lemma amount_reason_exceeds:
  "sublist ''exceeds'' (''Claim amount $'' @ x @ '' exceeds policy limit'')"
proof -
  have "''Claim amount $'' @ x @ '' exceeds policy limit''
        = (''Claim amount $'' @ x @ '' '') @ ''exceeds'' @ '' policy limit''"
    by simp
  then show ?thesis
    unfolding sublist_def by blast
qed

lemma amount_reason_amount:
  "sublist x (''Claim amount $'' @ x @ '' exceeds policy limit'')"
  by (rule sublist_appendI)


subsection \<open>The fixture passes every check\<close>

lemma valid_claim_basic: "validate_basic_info valid_claim"
  by (simp add: validate_basic_info_def valid_claim_def strip_def isspace_def)

lemma valid_claim_amount: "check_amount_limit valid_claim"
  by (simp add: check_amount_limit_def valid_claim_def MAX_CLAIM_AMOUNT_def)

lemma valid_claim_date: "check_service_date test_now valid_claim"
  by (simp add: check_service_date_def valid_claim_def test_now_def timedelta_days_def
      day_us_def MAX_SERVICE_AGE_DAYS_def)

lemma valid_claim_doc: "check_documentation valid_claim = 1"
  by (simp add: check_documentation_def valid_claim_def truthy_str_def truthy_list_def
      len_or_empty_def)

lemma validate_basic_info_cong:
  "patient_name c' = patient_name c \<Longrightarrow> patient_id c' = patient_id c \<Longrightarrow>
   provider_name c' = provider_name c \<Longrightarrow> total_amount c' = total_amount c \<Longrightarrow>
   validate_basic_info c' = validate_basic_info c"
  by (simp add: validate_basic_info_def)


subsection \<open>The ordered pipeline\<close>

text \<open>
  Claim C1. For every claim, clock reading and ledger, \<open>evaluate_claim\<close> follows the ordered,
  short-circuiting pipeline: invalid basic information gives \<open>pending_info\<close> with the single
  reason "Missing or invalid basic information" and confidence 0; otherwise a failed amount
  check gives \<open>rejected\<close> with a reason that contains the amount and confidence 1; otherwise
  a failed service-date check gives \<open>rejected\<close> with "Service date is outside acceptable
  range" and confidence 1; otherwise a duplicate adds "Potential duplicate claim detected"
  and the factor 0.7 without ending the evaluation, a documentation score below 0.5 gives
  \<open>pending_info\<close> with the score as confidence, and else the confidence is multiplied by the
  score and the claim is \<open>approved\<close> exactly when the amount is below 1000 and the confidence
  above 0.8, \<open>under_review\<close> otherwise. A claim over the amount limit and under-documented
  is rejected for its amount, and no claim over the limit is flagged for documentation.
\<close>

theorem evaluate_claim_pipeline:
  "(\<not> validate_basic_info c \<longrightarrow>
      evaluate_claim f now c L =
        ((PENDING_INFO, [''Missing or invalid basic information''], 0), L))
   \<and> (validate_basic_info c \<and> \<not> check_amount_limit c \<longrightarrow>
      evaluate_claim f now c L =
        ((REJECTED, [''Claim amount $'' @ f (total_amount c) @ '' exceeds policy limit''], 1), L)
      \<and> sublist (f (total_amount c))
           (''Claim amount $'' @ f (total_amount c) @ '' exceeds policy limit''))
   \<and> (validate_basic_info c \<and> check_amount_limit c \<and> \<not> check_service_date now c \<longrightarrow>
      evaluate_claim f now c L =
        ((REJECTED, [''Service date is outside acceptable range''], 1), L))
   \<and> (validate_basic_info c \<and> check_amount_limit c \<and> check_service_date now c \<longrightarrow>
      evaluate_claim f now c L =
        (let dup = (claim_key_of c \<in> L);
             reasons = (if dup then [''Potential duplicate claim detected''] else []);
             confidence = (if dup then 7 / 10 else 1);
             doc_score = check_documentation c
         in ((if doc_score < 1 / 2
              then (PENDING_INFO, reasons @ [''Insufficient documentation provided''], doc_score)
              else if total_amount c < 1000 \<and> confidence * doc_score > 8 / 10
              then (APPROVED, reasons @ [''Auto-approved: All criteria met''],
                    confidence * doc_score)
              else (UNDER_REVIEW, reasons @ [''Requires manual review''],
                    confidence * doc_score)),
             insert (claim_key_of c) L)))
   \<and> (validate_basic_info c \<and> total_amount c > MAX_CLAIM_AMOUNT
        \<and> check_documentation c < 1 / 2 \<longrightarrow>
      fst (evaluate_claim f now c L) =
        (REJECTED, [''Claim amount $'' @ f (total_amount c) @ '' exceeds policy limit''], 1))
   \<and> (total_amount c > MAX_CLAIM_AMOUNT \<longrightarrow>
      ''Insufficient documentation provided'' \<notin> set (fst (snd (fst (evaluate_claim f now c L)))))"
proof (intro conjI impI)
  assume "\<not> validate_basic_info c"
  then show "evaluate_claim f now c L =
        ((PENDING_INFO, [''Missing or invalid basic information''], 0), L)"
    by (rule evaluate_claim_basic)
next
  assume "validate_basic_info c \<and> \<not> check_amount_limit c"
  then show "evaluate_claim f now c L =
        ((REJECTED, [''Claim amount $'' @ f (total_amount c) @ '' exceeds policy limit''], 1), L)"
    by (simp add: evaluate_claim_amount)
next
  show "sublist (f (total_amount c))
           (''Claim amount $'' @ f (total_amount c) @ '' exceeds policy limit'')"
    by (rule amount_reason_amount)
next
  assume "validate_basic_info c \<and> check_amount_limit c \<and> \<not> check_service_date now c"
  then show "evaluate_claim f now c L =
        ((REJECTED, [''Service date is outside acceptable range''], 1), L)"
    by (simp add: evaluate_claim_date)
next
  assume "validate_basic_info c \<and> check_amount_limit c \<and> check_service_date now c"
  then show "evaluate_claim f now c L =
        (let dup = (claim_key_of c \<in> L);
             reasons = (if dup then [''Potential duplicate claim detected''] else []);
             confidence = (if dup then 7 / 10 else 1);
             doc_score = check_documentation c
         in ((if doc_score < 1 / 2
              then (PENDING_INFO, reasons @ [''Insufficient documentation provided''], doc_score)
              else if total_amount c < 1000 \<and> confidence * doc_score > 8 / 10
              then (APPROVED, reasons @ [''Auto-approved: All criteria met''],
                    confidence * doc_score)
              else (UNDER_REVIEW, reasons @ [''Requires manual review''],
                    confidence * doc_score)),
             insert (claim_key_of c) L))"
    unfolding Let_def by (simp only: evaluate_claim_rest)
next
  assume "validate_basic_info c \<and> total_amount c > MAX_CLAIM_AMOUNT
        \<and> check_documentation c < 1 / 2"
  then show "fst (evaluate_claim f now c L) =
        (REJECTED, [''Claim amount $'' @ f (total_amount c) @ '' exceeds policy limit''], 1)"
    by (simp add: evaluate_claim_amount over_limit_fails)
next
  assume over: "total_amount c > MAX_CLAIM_AMOUNT"
  show "''Insufficient documentation provided'' \<notin> set (fst (snd (fst (evaluate_claim f now c L))))"
  proof (cases "validate_basic_info c")
    case True
    with over show ?thesis
      by (simp add: evaluate_claim_amount over_limit_fails)
  next
    case False
    then show ?thesis
      by (simp add: evaluate_claim_basic)
  qed
qed

text \<open>
  The pipeline on four records: one without a patient id, one over the limit and without
  documentation, one with a service date after the clock reading, and the fixture itself.
\<close>

theorem evaluate_claim_pipeline_witness:
  "evaluate_claim test_str_float test_now (valid_claim\<lparr>patient_id := ''''\<rparr>) {} =
     ((PENDING_INFO, [''Missing or invalid basic information''], 0), {})
   \<and> evaluate_claim test_str_float test_now
        (valid_claim\<lparr>total_amount := 150000, description := None,
                     diagnosis_codes := Some [], procedure_codes := Some []\<rparr>) {} =
     ((REJECTED, [''Claim amount $150000.0 exceeds policy limit''], 1), {})
   \<and> evaluate_claim test_str_float test_now
        (valid_claim\<lparr>service_date := test_now + 1\<rparr>) {} =
     ((REJECTED, [''Service date is outside acceptable range''], 1), {})
   \<and> evaluate_claim test_str_float test_now valid_claim {} =
     ((APPROVED, [''Auto-approved: All criteria met''], 1), {claim_key_of valid_claim})"
proof (intro conjI)
  have "\<not> validate_basic_info (valid_claim\<lparr>patient_id := ''''\<rparr>)"
    by (simp add: validate_basic_info_def)
  with evaluate_claim_pipeline [of "valid_claim\<lparr>patient_id := ''''\<rparr>" test_str_float test_now "{}"]
  show "evaluate_claim test_str_float test_now (valid_claim\<lparr>patient_id := ''''\<rparr>) {} =
     ((PENDING_INFO, [''Missing or invalid basic information''], 0), {})"
    by blast
next
  let ?c = "valid_claim\<lparr>total_amount := 150000, description := None,
                     diagnosis_codes := Some [], procedure_codes := Some []\<rparr>"
  have b: "validate_basic_info ?c"
    by (simp add: validate_basic_info_def valid_claim_def strip_def isspace_def)
  have a: "\<not> check_amount_limit ?c"
    by (simp add: check_amount_limit_def MAX_CLAIM_AMOUNT_def)
  have s: "test_str_float (total_amount ?c) = ''150000.0''"
    by (simp add: test_str_float_def)
  from evaluate_claim_pipeline [of ?c test_str_float test_now "{}"] b a
  have "evaluate_claim test_str_float test_now ?c {} =
        ((REJECTED, [''Claim amount $'' @ test_str_float (total_amount ?c)
                     @ '' exceeds policy limit''], 1), {})"
    by blast
  then show "evaluate_claim test_str_float test_now ?c {} =
     ((REJECTED, [''Claim amount $150000.0 exceeds policy limit''], 1), {})"
    by (simp only: s append.simps)
next
  let ?c = "valid_claim\<lparr>service_date := test_now + 1\<rparr>"
  have "validate_basic_info ?c = validate_basic_info valid_claim"
    by (rule validate_basic_info_cong) simp_all
  then have b: "validate_basic_info ?c"
    by (simp add: valid_claim_basic)
  have "check_amount_limit ?c = check_amount_limit valid_claim"
    by (simp add: check_amount_limit_def)
  then have a: "check_amount_limit ?c"
    by (simp add: valid_claim_amount)
  have d: "\<not> check_service_date test_now ?c"
    by (simp add: check_service_date_def)
  from evaluate_claim_pipeline [of ?c test_str_float test_now "{}"] b a d
  show "evaluate_claim test_str_float test_now ?c {} =
     ((REJECTED, [''Service date is outside acceptable range''], 1), {})"
    by blast
next
  from evaluate_claim_pipeline [of valid_claim test_str_float test_now "{}"]
    valid_claim_basic valid_claim_amount valid_claim_date
  have "evaluate_claim test_str_float test_now valid_claim {} =
        (let dup = (claim_key_of valid_claim \<in> {});
             reasons = (if dup then [''Potential duplicate claim detected''] else []);
             confidence = (if dup then 7 / 10 else 1);
             doc_score = check_documentation valid_claim
         in ((if doc_score < 1 / 2
              then (PENDING_INFO, reasons @ [''Insufficient documentation provided''], doc_score)
              else if total_amount valid_claim < 1000 \<and> confidence * doc_score > 8 / 10
              then (APPROVED, reasons @ [''Auto-approved: All criteria met''],
                    confidence * doc_score)
              else (UNDER_REVIEW, reasons @ [''Requires manual review''],
                    confidence * doc_score)),
             insert (claim_key_of valid_claim) {}))"
    by blast
  moreover have "total_amount valid_claim < 1000"
    by (simp add: valid_claim_def)
  ultimately show "evaluate_claim test_str_float test_now valid_claim {} =
     ((APPROVED, [''Auto-approved: All criteria met''], 1), {claim_key_of valid_claim})"
    by (simp add: valid_claim_doc)
qed

subsection \<open>Claims over the amount limit\<close>

text \<open>
  Claim C2, as stated: every claim over the limit is rejected, whatever its other fields.
  The fixture with an empty patient id and the amount 150000 is over the limit and gets
  \<open>pending_info\<close>: the basic-information check comes first.
\<close>

theorem over_limit_not_always_rejected_counterexample:
  "total_amount (valid_claim\<lparr>patient_id := '''', total_amount := 150000\<rparr>) > MAX_CLAIM_AMOUNT
   \<and> evaluate_claim test_str_float test_now
        (valid_claim\<lparr>patient_id := '''', total_amount := 150000\<rparr>) {} =
       ((PENDING_INFO, [''Missing or invalid basic information''], 0), {})
   \<and> fst (fst (evaluate_claim test_str_float test_now
        (valid_claim\<lparr>patient_id := '''', total_amount := 150000\<rparr>) {})) \<noteq> REJECTED"
proof -
  have "\<not> validate_basic_info (valid_claim\<lparr>patient_id := '''', total_amount := 150000\<rparr>)"
    by (simp add: validate_basic_info_def)
  then show ?thesis
    by (simp add: evaluate_claim_basic MAX_CLAIM_AMOUNT_def)
qed


text \<open>
  Claim C2, amended. Every claim over the limit that passes \<open>validate_basic_info\<close> is
  rejected with confidence 1 and the single reason "Claim amount $X exceeds policy limit",
  which contains "exceeds".
\<close>

theorem over_limit_rejected:
  assumes "validate_basic_info c" and "total_amount c > MAX_CLAIM_AMOUNT"
  shows "\<exists>reason. fst (evaluate_claim f now c L) = (REJECTED, [reason], 1)
           \<and> sublist ''exceeds'' reason
           \<and> reason = ''Claim amount $'' @ f (total_amount c) @ '' exceeds policy limit''"
proof -
  let ?reason = "''Claim amount $'' @ f (total_amount c) @ '' exceeds policy limit''"
  have "evaluate_claim f now c L = ((REJECTED, [?reason], 1), L)"
    by (rule evaluate_claim_amount [OF assms(1) over_limit_fails [OF assms(2)]])
  then have "fst (evaluate_claim f now c L) = (REJECTED, [?reason], 1)"
    by (simp only: fst_conv)
  moreover have "sublist ''exceeds'' ?reason"
    by (rule amount_reason_exceeds)
  ultimately show ?thesis
    by blast
qed


theorem over_limit_rejected_witness:
  "validate_basic_info (valid_claim\<lparr>total_amount := 150000\<rparr>)
   \<and> total_amount (valid_claim\<lparr>total_amount := 150000\<rparr>) > MAX_CLAIM_AMOUNT
   \<and> (\<exists>reason. fst (evaluate_claim test_str_float test_now
                      (valid_claim\<lparr>total_amount := 150000\<rparr>) {}) = (REJECTED, [reason], 1)
           \<and> sublist ''exceeds'' reason
           \<and> reason = ''Claim amount $150000.0 exceeds policy limit'')"
proof -
  let ?c = "valid_claim\<lparr>total_amount := 150000\<rparr>"
  have b: "validate_basic_info ?c"
    by (simp add: validate_basic_info_def valid_claim_def strip_def isspace_def)
  have a: "total_amount ?c > MAX_CLAIM_AMOUNT"
    by (simp add: MAX_CLAIM_AMOUNT_def)
  have s: "test_str_float (total_amount ?c) = ''150000.0''"
    by (simp add: test_str_float_def)
  from over_limit_rejected [OF b a, of test_str_float test_now "{}"]
  have "\<exists>reason. fst (evaluate_claim test_str_float test_now ?c {}) = (REJECTED, [reason], 1)
           \<and> sublist ''exceeds'' reason
           \<and> reason = ''Claim amount $150000.0 exceeds policy limit''"
    by (simp only: s append.simps)
  with b a show ?thesis
    by (intro conjI)
qed

section \<open>The duplicate ledger\<close>

subsection \<open>The ledger only grows\<close>

lemma evaluate_claim_ledger:
  "snd (evaluate_claim f now c L) =
     (if validate_basic_info c \<and> check_amount_limit c \<and> check_service_date now c
      then insert (claim_key_of c) L else L)"
proof (cases "validate_basic_info c")
  case False
  then show ?thesis by (simp add: evaluate_claim_basic)
next
  case b: True
  show ?thesis
  proof (cases "check_amount_limit c")
    case False
    with b show ?thesis by (simp add: evaluate_claim_amount)
  next
    case a: True
    show ?thesis
    proof (cases "check_service_date now c")
      case False
      with b a show ?thesis by (simp add: evaluate_claim_date)
    next
      case True
      with b a show ?thesis by (simp add: evaluate_claim_rest)
    qed
  qed
qed





lemma process_batch_loop_ledger:
  "snd (process_batch_loop f clock i cs r L) = batch_ledger f clock i cs L"
  by (induction cs arbitrary: i r L) (simp_all add: Let_def split: prod.splits)

lemma process_batch_ledger:
  "snd (process_batch f clock cs L) = batch_ledger f clock 0 cs L"
  by (simp add: process_batch_def process_batch_loop_ledger)






subsection \<open>The duplicate reason of an evaluation\<close>




subsection \<open>First occurrence and later occurrences of a key\<close>




section \<open>The documentation score\<close>

lemma check_documentation_sum:
  "check_documentation c =
     (description_points c + diagnosis_points c + procedure_points c + provider_points c
        + amount_points c) / 5"
  by (cases "description c"; cases "diagnosis_codes c"; cases "procedure_codes c";
      cases "provider_id c")
    (simp_all add: check_documentation_def description_points_def diagnosis_points_def
      procedure_points_def provider_points_def amount_points_def truthy_str_def
      truthy_list_def len_or_empty_def Suc_le_eq not_le)

lemma points_bounds:
  "0 \<le> description_points c \<and> description_points c \<le> 1"
  "0 \<le> diagnosis_points c \<and> diagnosis_points c \<le> 3 / 2"
  "0 \<le> procedure_points c \<and> procedure_points c \<le> 3 / 2"
  "0 \<le> provider_points c \<and> provider_points c \<le> 1 / 2"
  "0 \<le> amount_points c \<and> amount_points c \<le> 1 / 2"
  by (simp_all add: description_points_def diagnosis_points_def procedure_points_def
      provider_points_def amount_points_def split: option.splits)

lemma check_documentation_bounds:
  "0 \<le> check_documentation c \<and> check_documentation c \<le> 1"
  using points_bounds [of c] by (simp add: check_documentation_sum)










section \<open>The confidence\<close>

text \<open>
  Claim C7. For every claim, clock reading and ledger, the confidence that \<open>evaluate_claim\<close>
  returns lies in [0, 1], and so does the documentation score. The returned value is 0.0 or
  1.0 (the terminal constants), the documentation score, or the start value 1.0 times the
  duplicate factor 0.7 times the score; it never exceeds the confidence held after the
  duplicate step, which is 0.7 after a detected duplicate and the start value 1.0 otherwise.
\<close>

theorem confidence_in_unit_interval:
  "0 \<le> confidence_of (evaluate_claim f now c L)
   \<and> confidence_of (evaluate_claim f now c L) \<le> 1
   \<and> 0 \<le> check_documentation c \<and> check_documentation c \<le> 1
   \<and> (confidence_of (evaluate_claim f now c L) = 0
      \<or> confidence_of (evaluate_claim f now c L) = 1
      \<or> confidence_of (evaluate_claim f now c L) = check_documentation c
      \<or> confidence_of (evaluate_claim f now c L) = 1 * (7 / 10) * check_documentation c)
   \<and> confidence_of (evaluate_claim f now c L)
        \<le> (if validate_basic_info c \<and> check_amount_limit c \<and> check_service_date now c
               \<and> claim_key_of c \<in> L
            then 1 * (7 / 10) else 1)"
proof -
  note d = check_documentation_bounds [of c]
  consider (basic) "\<not> validate_basic_info c"
    | (amount) "validate_basic_info c" "\<not> check_amount_limit c"
    | (date) "validate_basic_info c" "check_amount_limit c" "\<not> check_service_date now c"
    | (rest) "validate_basic_info c" "check_amount_limit c" "check_service_date now c"
    by blast
  then show ?thesis
  proof cases
    case basic
    then show ?thesis using d by (simp add: confidence_of_def evaluate_claim_basic)
  next
    case amount
    then show ?thesis using d by (simp add: confidence_of_def evaluate_claim_amount)
  next
    case date
    then show ?thesis using d by (simp add: confidence_of_def evaluate_claim_date)
  next
    case rest
    show ?thesis
    proof (cases "claim_key_of c \<in> L")
      case True
      have "7 / 10 * check_documentation c \<le> 7 / 10 * 1"
        using d by (intro mult_left_mono) simp_all
      then have u: "check_documentation c * 7 \<le> 7"
        by simp
      have l: "0 \<le> 7 / 10 * check_documentation c"
        using d by simp
      from rest True d u l show ?thesis
        by (simp add: confidence_of_def evaluate_claim_rest)
    next
      case False
      with rest d show ?thesis
        by (simp add: confidence_of_def evaluate_claim_rest)
    qed
  qed
qed

section \<open>Batch processing\<close>

subsection \<open>What the loop computes\<close>

lemma length_batch_decisions [simp]: "length (batch_decisions f clock i cs L) = length cs"
  by (induction cs arbitrary: i L) simp_all

lemma length_new_details [simp]: "length (new_details f clock i cs L) = length cs"
  by (simp add: new_details_def)

lemma new_details_Nil [simp]: "new_details f clock i [] L = []"
  by (simp add: new_details_def)

lemma new_details_Cons:
  "new_details f clock i (c # cs) L =
     detail_of c (fst (evaluate_claim f (clock i) c L))
       # new_details f clock (Suc i) cs (snd (evaluate_claim f (clock i) c L))"
  by (simp add: new_details_def)

lemma detail_of_triple:
  "\<lparr>detail_claim_id = claim_id c, detail_status = st, detail_reasons = rs,
     detail_confidence = conf\<rparr> = detail_of c (st, rs, conf)"
  by (simp add: detail_of_def)

lemma count_status_Cons:
  "count_status st (d # ds) = (if detail_status d = st then 1 else 0) + count_status st ds"
  by (simp add: count_status_def)

lemma count_status_Nil [simp]: "count_status st [] = 0"
  by (simp add: count_status_def)

lemma detail_status_detail_of [simp]: "detail_status (detail_of c d) = fst d"
  by (simp add: detail_of_def)

lemma loop_total:
  "total (fst (process_batch_loop f clock i cs r L)) = total r"
  by (induction cs arbitrary: i r L) (simp_all add: Let_def split: prod.splits)

lemma loop_details:
  "details (fst (process_batch_loop f clock i cs r L)) = details r @ new_details f clock i cs L"
proof (induction cs arbitrary: i r L)
  case Nil
  show ?case by simp
next
  case (Cons c cs)
  obtain st rs conf L' where e: "evaluate_claim f (clock i) c L = ((st, rs, conf), L')"
    by (metis prod.collapse)
  show ?case
    by (cases st) (simp_all add: e Cons.IH Let_def new_details_Cons detail_of_triple)
qed

lemma loop_approved:
  "approved (fst (process_batch_loop f clock i cs r L))
     = approved r + count_status APPROVED (new_details f clock i cs L)"
proof (induction cs arbitrary: i r L)
  case Nil
  show ?case by simp
next
  case (Cons c cs)
  obtain st rs conf L' where e: "evaluate_claim f (clock i) c L = ((st, rs, conf), L')"
    by (metis prod.collapse)
  show ?case
    by (cases st) (simp_all add: e Cons.IH Let_def new_details_Cons count_status_Cons detail_of_triple)
qed

lemma loop_rejected:
  "rejected (fst (process_batch_loop f clock i cs r L))
     = rejected r + count_status REJECTED (new_details f clock i cs L)"
proof (induction cs arbitrary: i r L)
  case Nil
  show ?case by simp
next
  case (Cons c cs)
  obtain st rs conf L' where e: "evaluate_claim f (clock i) c L = ((st, rs, conf), L')"
    by (metis prod.collapse)
  show ?case
    by (cases st) (simp_all add: e Cons.IH Let_def new_details_Cons count_status_Cons detail_of_triple)
qed

lemma loop_under_review:
  "under_review (fst (process_batch_loop f clock i cs r L))
     = under_review r + count_status UNDER_REVIEW (new_details f clock i cs L)"
proof (induction cs arbitrary: i r L)
  case Nil
  show ?case by simp
next
  case (Cons c cs)
  obtain st rs conf L' where e: "evaluate_claim f (clock i) c L = ((st, rs, conf), L')"
    by (metis prod.collapse)
  show ?case
    by (cases st) (simp_all add: e Cons.IH Let_def new_details_Cons count_status_Cons detail_of_triple)
qed

lemma loop_pending_info:
  "pending_info (fst (process_batch_loop f clock i cs r L))
     = pending_info r + count_status PENDING_INFO (new_details f clock i cs L)"
proof (induction cs arbitrary: i r L)
  case Nil
  show ?case by simp
next
  case (Cons c cs)
  obtain st rs conf L' where e: "evaluate_claim f (clock i) c L = ((st, rs, conf), L')"
    by (metis prod.collapse)
  show ?case
    by (cases st) (simp_all add: e Cons.IH Let_def new_details_Cons count_status_Cons detail_of_triple)
qed

lemma evaluate_claim_status:
  "status_of (evaluate_claim f now c L) \<in> {APPROVED, REJECTED, UNDER_REVIEW, PENDING_INFO}"
proof -
  consider (basic) "\<not> validate_basic_info c"
    | (amount) "validate_basic_info c" "\<not> check_amount_limit c"
    | (date) "validate_basic_info c" "check_amount_limit c" "\<not> check_service_date now c"
    | (rest) "validate_basic_info c" "check_amount_limit c" "check_service_date now c"
    by blast
  then show ?thesis
  proof cases
    case basic
    then show ?thesis by (simp add: status_of_def evaluate_claim_basic)
  next
    case amount
    then show ?thesis by (simp add: status_of_def evaluate_claim_amount)
  next
    case date
    then show ?thesis by (simp add: status_of_def evaluate_claim_date)
  next
    case rest
    then show ?thesis by (simp add: status_of_def evaluate_claim_rest)
  qed
qed

lemma counts_sum:
  "count_status APPROVED (new_details f clock i cs L)
   + count_status REJECTED (new_details f clock i cs L)
   + count_status UNDER_REVIEW (new_details f clock i cs L)
   + count_status PENDING_INFO (new_details f clock i cs L) = length cs"
proof (induction cs arbitrary: i L)
  case Nil
  show ?case by simp
next
  case (Cons c cs)
  have "fst (fst (evaluate_claim f (clock i) c L))
          \<in> {APPROVED, REJECTED, UNDER_REVIEW, PENDING_INFO}"
    using evaluate_claim_status [of f "clock i" c L] by (simp add: status_of_def)
  then show ?case
    using Cons.IH [of "Suc i" "snd (evaluate_claim f (clock i) c L)"]
    by (auto simp: new_details_Cons count_status_Cons)
qed

lemma batch_decisions_nth:
  "j < length cs \<Longrightarrow>
   batch_decisions f clock i cs L ! j =
     fst (evaluate_claim f (clock (i + j)) (cs ! j) (batch_ledger f clock i (take j cs) L))"
proof (induction cs arbitrary: i j L)
  case Nil
  then show ?case by simp
next
  case (Cons c cs)
  show ?case
  proof (cases j)
    case 0
    then show ?thesis by simp
  next
    case (Suc k)
    with Cons.prems have "k < length cs" by simp
    from Cons.IH [OF this, of "Suc i" "snd (evaluate_claim f (clock i) c L)"]
    show ?thesis by (simp add: Suc)
  qed
qed

lemma new_details_nth:
  assumes "j < length cs"
  shows "new_details f clock i cs L ! j =
     detail_of (cs ! j)
       (fst (evaluate_claim f (clock (i + j)) (cs ! j) (batch_ledger f clock i (take j cs) L)))"
  using assms by (simp add: new_details_def batch_decisions_nth)

subsection \<open>A batch of new, complete, low-value claims\<close>

lemma all_approved:
  assumes "\<forall>j<length cs. validate_basic_info (cs ! j) \<and> check_service_date (clock (i + j)) (cs ! j)
             \<and> 0 < total_amount (cs ! j) \<and> total_amount (cs ! j) < 1000
             \<and> check_documentation (cs ! j) > 8 / 10"
    and "distinct (map claim_key_of cs)"
    and "\<forall>c\<in>set cs. claim_key_of c \<notin> L"
  shows "count_status APPROVED (new_details f clock i cs L) = length cs"
  using assms
proof (induction cs arbitrary: i L)
  case Nil
  show ?case by simp
next
  case (Cons c cs)
  from Cons.prems(1) have h: "validate_basic_info c" "check_service_date (clock i) c"
    "0 < total_amount c" "total_amount c < 1000" "check_documentation c > 8 / 10"
    by force+
  from h have a: "check_amount_limit c"
    by (simp add: check_amount_limit_def MAX_CLAIM_AMOUNT_def)
  from Cons.prems(3) have k: "claim_key_of c \<notin> L"
    by simp
  from h a k have e: "evaluate_claim f (clock i) c L =
      ((APPROVED, [''Auto-approved: All criteria met''], check_documentation c),
       insert (claim_key_of c) L)"
    by (simp add: evaluate_claim_rest)
  have t1: "\<forall>j<length cs. validate_basic_info (cs ! j)
             \<and> check_service_date (clock (Suc i + j)) (cs ! j)
             \<and> 0 < total_amount (cs ! j) \<and> total_amount (cs ! j) < 1000
             \<and> check_documentation (cs ! j) > 8 / 10"
  proof (intro allI impI)
    fix j assume "j < length cs"
    then have "Suc j < length (c # cs)" by simp
    with Cons.prems(1) have "validate_basic_info ((c # cs) ! Suc j)
             \<and> check_service_date (clock (i + Suc j)) ((c # cs) ! Suc j)
             \<and> 0 < total_amount ((c # cs) ! Suc j) \<and> total_amount ((c # cs) ! Suc j) < 1000
             \<and> check_documentation ((c # cs) ! Suc j) > 8 / 10"
      by blast
    then show "validate_basic_info (cs ! j)
             \<and> check_service_date (clock (Suc i + j)) (cs ! j)
             \<and> 0 < total_amount (cs ! j) \<and> total_amount (cs ! j) < 1000
             \<and> check_documentation (cs ! j) > 8 / 10"
      by simp
  qed
  from Cons.prems(2) have t2: "distinct (map claim_key_of cs)"
    by simp
  from Cons.prems(2) have nk: "claim_key_of c \<notin> claim_key_of ` set cs"
    by simp
  have t3: "\<forall>c'\<in>set cs. claim_key_of c' \<notin> insert (claim_key_of c) L"
  proof
    fix c' assume m: "c' \<in> set cs"
    then have "claim_key_of c' \<in> claim_key_of ` set cs"
      by (rule imageI)
    with nk have "claim_key_of c' \<noteq> claim_key_of c"
      by metis
    moreover from m Cons.prems(3) have "claim_key_of c' \<notin> L"
      by simp
    ultimately show "claim_key_of c' \<notin> insert (claim_key_of c) L"
      by simp
  qed
  from Cons.IH [OF t1 t2 t3]
  show ?case
    by (simp add: new_details_Cons e count_status_Cons)
qed

lemma distinct_keys:
  "distinct (map patient_id cs) \<Longrightarrow> distinct (map claim_key_of cs)"
proof (induction cs)
  case Nil
  show ?case by simp
next
  case (Cons c cs)
  then show ?case
    by (auto simp: claim_key_of_def)
qed

lemma process_batch_fields:
  "total (fst (process_batch f clock cs L)) = length cs"
  "details (fst (process_batch f clock cs L)) = new_details f clock 0 cs L"
  "approved (fst (process_batch f clock cs L)) = count_status APPROVED (new_details f clock 0 cs L)"
  "rejected (fst (process_batch f clock cs L)) = count_status REJECTED (new_details f clock 0 cs L)"
  "under_review (fst (process_batch f clock cs L))
     = count_status UNDER_REVIEW (new_details f clock 0 cs L)"
  "pending_info (fst (process_batch f clock cs L))
     = count_status PENDING_INFO (new_details f clock 0 cs L)"
  by (simp_all add: process_batch_def loop_total loop_details loop_approved loop_rejected
      loop_under_review loop_pending_info)

lemma scenario_approved:
  assumes "length cs = 5" and "map total_amount cs = [500, 600, 700, 800, 900]"
    and "distinct (map patient_id cs)"
    and "\<forall>c\<in>set cs. validate_basic_info c \<and> check_documentation c > 8 / 10
           \<and> claim_key_of c \<notin> L"
    and "\<forall>i<5. check_service_date (clock i) (cs ! i)"
  shows "count_status APPROVED (new_details f clock 0 cs L) = 5"
proof -
  have amt: "0 < total_amount (cs ! j) \<and> total_amount (cs ! j) < 1000" if "j < 5" for j
  proof -
    from that assms(1) have "total_amount (cs ! j) = map total_amount cs ! j"
      by simp
    also have "\<dots> \<in> set [500, 600, 700, 800, 900]"
      unfolding assms(2) using that by (intro nth_mem) simp
    finally show ?thesis
      by auto
  qed
  have "\<forall>j<length cs. validate_basic_info (cs ! j) \<and> check_service_date (clock (0 + j)) (cs ! j)
             \<and> 0 < total_amount (cs ! j) \<and> total_amount (cs ! j) < 1000
             \<and> check_documentation (cs ! j) > 8 / 10"
    using assms(1,4,5) amt by (simp add: nth_mem)
  moreover from assms(3) have "distinct (map claim_key_of cs)"
    by (rule distinct_keys)
  moreover from assms(4) have "\<forall>c\<in>set cs. claim_key_of c \<notin> L"
    by blast
  ultimately have "count_status APPROVED (new_details f clock 0 cs L) = length cs"
    by (rule all_approved)
  with assms(1) show ?thesis
    by simp
qed


lemma test_batch_length: "length test_batch = 5"
  by (simp add: test_batch_def)

lemma test_batch_amounts: "map total_amount test_batch = [500, 600, 700, 800, 900]"
  by (simp add: test_batch_def batch_claim_def)

lemma test_batch_ids:
  "map patient_id test_batch =
     [''PAT-000000'', ''PAT-000001'', ''PAT-000002'', ''PAT-000003'', ''PAT-000004'']"
  by code_simp

lemma test_batch_distinct: "distinct (map patient_id test_batch)"
  by (simp add: test_batch_ids)

lemma test_batch_complete:
  "list_all (\<lambda>c. validate_basic_info c \<and> check_documentation c > 8 / 10
               \<and> check_service_date test_now c) test_batch"
  by code_simp

lemma test_batch_last_id: "claim_id (test_batch ! 4) = Some ''CLM-TEST-004''"
  by code_simp


subsection \<open>The ledger during a batch\<close>

lemma keys_recorded_Nil [simp]: "keys_recorded clock k [] = {}"
  by (simp add: keys_recorded_def)

lemma keys_recorded_Cons:
  "keys_recorded clock k (c # cs) =
     (if reaches_duplicate_check (clock k) c then {claim_key_of c} else {})
       \<union> keys_recorded clock (Suc k) cs"
proof (intro set_eqI iffI)
  fix x assume "x \<in> keys_recorded clock k (c # cs)"
  then obtain j where j: "j < length (c # cs)" "x = claim_key_of ((c # cs) ! j)"
    "reaches_duplicate_check (clock (k + j)) ((c # cs) ! j)"
    unfolding keys_recorded_def by blast
  show "x \<in> (if reaches_duplicate_check (clock k) c then {claim_key_of c} else {})
       \<union> keys_recorded clock (Suc k) cs"
  proof (cases j)
    case 0
    with j show ?thesis by simp
  next
    case (Suc m)
    with j have "m < length cs" "x = claim_key_of (cs ! m)"
      "reaches_duplicate_check (clock (Suc k + m)) (cs ! m)"
      by simp_all
    then have "x \<in> keys_recorded clock (Suc k) cs"
      unfolding keys_recorded_def by blast
    then show ?thesis by simp
  qed
next
  fix x assume a: "x \<in> (if reaches_duplicate_check (clock k) c then {claim_key_of c} else {})
       \<union> keys_recorded clock (Suc k) cs"
  show "x \<in> keys_recorded clock k (c # cs)"
  proof (cases "x \<in> keys_recorded clock (Suc k) cs")
    case True
    then obtain m where m: "m < length cs" "x = claim_key_of (cs ! m)"
      "reaches_duplicate_check (clock (Suc k + m)) (cs ! m)"
      unfolding keys_recorded_def by blast
    then have "Suc m < length (c # cs)" "x = claim_key_of ((c # cs) ! Suc m)"
      "reaches_duplicate_check (clock (k + Suc m)) ((c # cs) ! Suc m)"
      by simp_all
    then show ?thesis
      unfolding keys_recorded_def by blast
  next
    case False
    with a have r: "reaches_duplicate_check (clock k) c" and x: "x = claim_key_of c"
      by (auto split: if_splits)
    then have "0 < length (c # cs)" "x = claim_key_of ((c # cs) ! 0)"
      "reaches_duplicate_check (clock (k + 0)) ((c # cs) ! 0)"
      by simp_all
    then show ?thesis
      unfolding keys_recorded_def by blast
  qed
qed

lemma batch_ledger_keys:
  "batch_ledger f clock k cs L = L \<union> keys_recorded clock k cs"
proof (induction cs arbitrary: k L)
  case Nil
  show ?case by simp
next
  case (Cons c cs)
  show ?case
    by (auto simp: Cons.IH keys_recorded_Cons evaluate_claim_ledger reaches_duplicate_check_def)
qed

lemma valid_claim_reaches: "reaches_duplicate_check test_now valid_claim"
  by (simp add: reaches_duplicate_check_def valid_claim_basic valid_claim_amount
      valid_claim_date)

lemma keys_recorded_take:
  assumes "i \<le> length cs"
  shows "keys_recorded clock 0 (take i cs) =
     {claim_key_of (cs ! j) | j. j < i \<and> reaches_duplicate_check (clock j) (cs ! j)}"
proof -
  from assms have len: "length (take i cs) = i"
    by simp
  have nth: "take i cs ! j = cs ! j" if "j < i" for j
    using that by simp
  show ?thesis
    unfolding keys_recorded_def len
  proof (intro set_eqI iffI)
    fix x
    assume "x \<in> {claim_key_of (take i cs ! j) | j.
                   j < i \<and> reaches_duplicate_check (clock (0 + j)) (take i cs ! j)}"
    then obtain j where "j < i" "x = claim_key_of (take i cs ! j)"
      "reaches_duplicate_check (clock (0 + j)) (take i cs ! j)"
      by blast
    then have "j < i \<and> x = claim_key_of (cs ! j) \<and> reaches_duplicate_check (clock j) (cs ! j)"
      by (simp add: nth)
    then show "x \<in> {claim_key_of (cs ! j) | j.
                   j < i \<and> reaches_duplicate_check (clock j) (cs ! j)}"
      by blast
  next
    fix x
    assume "x \<in> {claim_key_of (cs ! j) | j.
                   j < i \<and> reaches_duplicate_check (clock j) (cs ! j)}"
    then obtain j where "j < i" "x = claim_key_of (cs ! j)"
      "reaches_duplicate_check (clock j) (cs ! j)"
      by blast
    then have "j < i \<and> x = claim_key_of (take i cs ! j)
               \<and> reaches_duplicate_check (clock (0 + j)) (take i cs ! j)"
      by (simp add: nth)
    then show "x \<in> {claim_key_of (take i cs ! j) | j.
                   j < i \<and> reaches_duplicate_check (clock (0 + j)) (take i cs ! j)}"
      by blast
  qed
qed

lemma repeated_batch_nth: "j < 2 \<Longrightarrow> repeated_batch ! j = valid_claim"
  by (cases j) (simp_all add: repeated_batch_def)

lemma repeated_batch_keys:
  assumes "0 < i" and "i \<le> 2"
  shows "{claim_key_of (repeated_batch ! j) | j.
           j < i \<and> reaches_duplicate_check test_now (repeated_batch ! j)}
         = {claim_key_of valid_claim}"
proof (intro set_eqI iffI)
  fix x
  assume "x \<in> {claim_key_of (repeated_batch ! j) | j.
                 j < i \<and> reaches_duplicate_check test_now (repeated_batch ! j)}"
  then obtain j where "j < i" "x = claim_key_of (repeated_batch ! j)"
    by blast
  with assms(2) have "x = claim_key_of valid_claim"
    by (simp add: repeated_batch_nth)
  then show "x \<in> {claim_key_of valid_claim}"
    by simp
next
  fix x
  assume "x \<in> {claim_key_of valid_claim}"
  then have "x = claim_key_of (repeated_batch ! 0)"
    by (simp add: repeated_batch_def)
  moreover have "reaches_duplicate_check test_now (repeated_batch ! 0)"
    by (simp add: repeated_batch_def valid_claim_reaches)
  ultimately show "x \<in> {claim_key_of (repeated_batch ! j) | j.
                 j < i \<and> reaches_duplicate_check test_now (repeated_batch ! j)}"
    using assms(1) by blast
qed

lemma valid_claim_again:
  "fst (evaluate_claim f test_now valid_claim (L \<union> {claim_key_of valid_claim})) =
     (UNDER_REVIEW, [''Potential duplicate claim detected'', ''Requires manual review''],
      7 / 10)"
  using valid_claim_basic valid_claim_amount valid_claim_date
  by (simp add: evaluate_claim_rest valid_claim_doc)

subsection \<open>The summary\<close>

text \<open>
  Claim C6. For every list of claims, \<open>process_batch\<close> returns \<open>total\<close> equal to the length
  of the list and as many details; the detail at position \<open>i\<close> holds the claim id of the claim
  at position \<open>i\<close> and the status, reasons and confidence of evaluating it, at its clock
  reading, on the ledger the claims before it left: the ledger the batch started with
  together with the keys of the claims at positions below \<open>i\<close> that reached the duplicate
  check (the same ledger is \<open>batch_ledger\<close> on the first \<open>i\<close> claims, and the ledger of the
  batch of the first \<open>i\<close> claims). The batch leaves the starting ledger together with the
  keys of all its claims that reached the duplicate check. Each of the four counters is the
  number of details with its status, and together they sum to \<open>total\<close>. Five claims with the
  amounts 500, 600, 700, 800, 900, distinct patient ids, valid basic information, service
  dates in range, a documentation score above 0.8 and keys the ledger does not hold yet give
  \<open>approved = 5\<close> and \<open>total = 5\<close>.
\<close>

theorem process_batch_summary:
  "(let r = fst (process_batch f clock cs L) in
      total r = length cs
    \<and> length (details r) = length cs
    \<and> (\<forall>i<length cs.
          details r ! i =
            detail_of (cs ! i)
              (fst (evaluate_claim f (clock i) (cs ! i)
                      (snd (process_batch f clock (take i cs) L)))))
    \<and> approved r = count_status APPROVED (details r)
    \<and> rejected r = count_status REJECTED (details r)
    \<and> under_review r = count_status UNDER_REVIEW (details r)
    \<and> pending_info r = count_status PENDING_INFO (details r)
    \<and> approved r + rejected r + under_review r + pending_info r = total r
    \<and> (length cs = 5 \<and> map total_amount cs = [500, 600, 700, 800, 900]
         \<and> distinct (map patient_id cs)
         \<and> (\<forall>c\<in>set cs. validate_basic_info c \<and> check_documentation c > 8 / 10
               \<and> claim_key_of c \<notin> L)
         \<and> (\<forall>i<5. check_service_date (clock i) (cs ! i)) \<longrightarrow>
        approved r = 5 \<and> total r = 5 \<and> length (details r) = 5)
    \<and> details r = new_details f clock 0 cs L
    \<and> (\<forall>i<length cs.
          details r ! i =
            detail_of (cs ! i)
              (fst (evaluate_claim f (clock i) (cs ! i)
                      (batch_ledger f clock 0 (take i cs) L))))
    \<and> (\<forall>i<length cs.
          details r ! i =
            detail_of (cs ! i)
              (fst (evaluate_claim f (clock i) (cs ! i)
                      (L \<union> {claim_key_of (cs ! j) | j.
                              j < i \<and> reaches_duplicate_check (clock j) (cs ! j)}))))
    \<and> snd (process_batch f clock cs L) = batch_ledger f clock 0 cs L
    \<and> snd (process_batch f clock cs L) =
        L \<union> {claim_key_of (cs ! j) | j.
               j < length cs \<and> reaches_duplicate_check (clock j) (cs ! j)})"
  unfolding Let_def
proof (intro conjI allI impI)
  show "total (fst (process_batch f clock cs L)) = length cs"
    by (simp add: process_batch_fields)
  show "length (details (fst (process_batch f clock cs L))) = length cs"
    by (simp add: process_batch_fields)
  show "approved (fst (process_batch f clock cs L))
        = count_status APPROVED (details (fst (process_batch f clock cs L)))"
    by (simp add: process_batch_fields)
  show "rejected (fst (process_batch f clock cs L))
        = count_status REJECTED (details (fst (process_batch f clock cs L)))"
    by (simp add: process_batch_fields)
  show "under_review (fst (process_batch f clock cs L))
        = count_status UNDER_REVIEW (details (fst (process_batch f clock cs L)))"
    by (simp add: process_batch_fields)
  show "pending_info (fst (process_batch f clock cs L))
        = count_status PENDING_INFO (details (fst (process_batch f clock cs L)))"
    by (simp add: process_batch_fields)
  show "approved (fst (process_batch f clock cs L)) + rejected (fst (process_batch f clock cs L))
        + under_review (fst (process_batch f clock cs L))
        + pending_info (fst (process_batch f clock cs L))
        = total (fst (process_batch f clock cs L))"
    by (simp add: process_batch_fields counts_sum)
  show "details (fst (process_batch f clock cs L)) = new_details f clock 0 cs L"
    by (rule process_batch_fields)
  show "snd (process_batch f clock cs L) = batch_ledger f clock 0 cs L"
    by (rule process_batch_ledger)
  have "keys_recorded clock 0 (take (length cs) cs) =
     {claim_key_of (cs ! j) | j. j < length cs \<and> reaches_duplicate_check (clock j) (cs ! j)}"
    by (rule keys_recorded_take) simp
  then show "snd (process_batch f clock cs L) =
        L \<union> {claim_key_of (cs ! j) | j.
               j < length cs \<and> reaches_duplicate_check (clock j) (cs ! j)}"
    by (simp add: process_batch_ledger batch_ledger_keys)
next
  fix i assume "i < length cs"
  then show "details (fst (process_batch f clock cs L)) ! i =
            detail_of (cs ! i)
              (fst (evaluate_claim f (clock i) (cs ! i)
                      (snd (process_batch f clock (take i cs) L))))"
    by (simp add: process_batch_fields new_details_nth process_batch_ledger)
next
  fix i assume "i < length cs"
  then show "details (fst (process_batch f clock cs L)) ! i =
            detail_of (cs ! i)
              (fst (evaluate_claim f (clock i) (cs ! i)
                      (batch_ledger f clock 0 (take i cs) L)))"
    by (simp add: process_batch_fields new_details_nth)
next
  fix i assume i: "i < length cs"
  then have "keys_recorded clock 0 (take i cs) =
     {claim_key_of (cs ! j) | j. j < i \<and> reaches_duplicate_check (clock j) (cs ! j)}"
    by (intro keys_recorded_take) simp
  then have "batch_ledger f clock 0 (take i cs) L =
     L \<union> {claim_key_of (cs ! j) | j. j < i \<and> reaches_duplicate_check (clock j) (cs ! j)}"
    by (simp only: batch_ledger_keys)
  moreover from i have "details (fst (process_batch f clock cs L)) ! i =
            detail_of (cs ! i)
              (fst (evaluate_claim f (clock i) (cs ! i)
                      (batch_ledger f clock 0 (take i cs) L)))"
    by (simp add: process_batch_fields new_details_nth)
  ultimately show "details (fst (process_batch f clock cs L)) ! i =
            detail_of (cs ! i)
              (fst (evaluate_claim f (clock i) (cs ! i)
                      (L \<union> {claim_key_of (cs ! j) | j.
                              j < i \<and> reaches_duplicate_check (clock j) (cs ! j)})))"
    by (simp only:)
next
  assume s: "length cs = 5 \<and> map total_amount cs = [500, 600, 700, 800, 900]
         \<and> distinct (map patient_id cs)
         \<and> (\<forall>c\<in>set cs. validate_basic_info c \<and> check_documentation c > 8 / 10
               \<and> claim_key_of c \<notin> L)
         \<and> (\<forall>i<5. check_service_date (clock i) (cs ! i))"
  then have "count_status APPROVED (new_details f clock 0 cs L) = 5"
    by (intro scenario_approved) simp_all
  then show "approved (fst (process_batch f clock cs L)) = 5"
    by (simp add: process_batch_fields)
  from s show "total (fst (process_batch f clock cs L)) = 5"
    by (simp add: process_batch_fields)
  from s show "length (details (fst (process_batch f clock cs L))) = 5"
    by (simp add: process_batch_fields)
qed

text \<open>
  The batch of the test suite on a new engine, and the batch that holds the fixture twice:
  its first entry is approved, its second is a duplicate and goes to review, and the ledger
  it leaves holds the one key.
\<close>

theorem process_batch_summary_witness:
  "length test_batch = 5
   \<and> map total_amount test_batch = [500, 600, 700, 800, 900]
   \<and> distinct (map patient_id test_batch)
   \<and> list_all (\<lambda>c. validate_basic_info c \<and> check_documentation c > 8 / 10
                  \<and> check_service_date test_now c) test_batch
   \<and> approved (fst (process_batch test_str_float (\<lambda>i. test_now) test_batch {})) = 5
   \<and> total (fst (process_batch test_str_float (\<lambda>i. test_now) test_batch {})) = 5
   \<and> length (details (fst (process_batch test_str_float (\<lambda>i. test_now) test_batch {}))) = 5
   \<and> rejected (fst (process_batch test_str_float (\<lambda>i. test_now) test_batch {}))
      + under_review (fst (process_batch test_str_float (\<lambda>i. test_now) test_batch {}))
      + pending_info (fst (process_batch test_str_float (\<lambda>i. test_now) test_batch {})) = 0
   \<and> detail_claim_id
        (details (fst (process_batch test_str_float (\<lambda>i. test_now) test_batch {})) ! 4)
      = Some ''CLM-TEST-004''
   \<and> details (fst (process_batch test_str_float (\<lambda>i. test_now) repeated_batch {})) ! 0
      = detail_of valid_claim (APPROVED, [''Auto-approved: All criteria met''], 1)
   \<and> details (fst (process_batch test_str_float (\<lambda>i. test_now) repeated_batch {})) ! 1
      = detail_of valid_claim
          (UNDER_REVIEW, [''Potential duplicate claim detected'', ''Requires manual review''],
           7 / 10)
   \<and> snd (process_batch test_str_float (\<lambda>i. test_now) repeated_batch {})
      = {claim_key_of valid_claim}"
proof -
  let ?r = "fst (process_batch test_str_float (\<lambda>i. test_now) test_batch {})"
  let ?q = "process_batch test_str_float (\<lambda>i. test_now) repeated_batch {}"
  note t = process_batch_summary [of test_str_float "\<lambda>i. test_now" test_batch "{}",
      unfolded Let_def]
  note u = process_batch_summary [of test_str_float "\<lambda>i. test_now" repeated_batch "{}",
      unfolded Let_def]
  have all: "\<forall>c\<in>set test_batch. validate_basic_info c \<and> check_documentation c > 8 / 10
               \<and> claim_key_of c \<notin> {}"
    using test_batch_complete by (simp add: list_all_iff)
  have dates: "\<forall>i<5. check_service_date ((\<lambda>i. test_now) i) (test_batch ! i)"
    using test_batch_complete by (simp add: list_all_length test_batch_length)
  from t test_batch_length test_batch_amounts test_batch_distinct all dates
  have s: "approved ?r = 5 \<and> total ?r = 5 \<and> length (details ?r) = 5"
    by blast
  from t have "approved ?r + rejected ?r + under_review ?r + pending_info ?r = total ?r"
    by blast
  with s have z: "rejected ?r + under_review ?r + pending_info ?r = 0"
    by simp
  from t have "\<forall>i<length test_batch. details ?r ! i =
            detail_of (test_batch ! i)
              (fst (evaluate_claim test_str_float test_now (test_batch ! i)
                      (snd (process_batch test_str_float (\<lambda>i. test_now)
                             (take i test_batch) {}))))"
    by blast
  then have "details ?r ! 4 =
            detail_of (test_batch ! 4)
              (fst (evaluate_claim test_str_float test_now (test_batch ! 4)
                      (snd (process_batch test_str_float (\<lambda>i. test_now)
                             (take 4 test_batch) {}))))"
    by (simp add: test_batch_length)
  then have "detail_claim_id (details ?r ! 4) = claim_id (test_batch ! 4)"
    by (simp add: detail_of_def)
  also have "\<dots> = Some ''CLM-TEST-004''"
    by (rule test_batch_last_id)
  finally have d: "detail_claim_id (details ?r ! 4) = Some ''CLM-TEST-004''" .
  from u have nth: "\<forall>i<length repeated_batch.
          details (fst ?q) ! i =
            detail_of (repeated_batch ! i)
              (fst (evaluate_claim test_str_float test_now (repeated_batch ! i)
                      ({} \<union> {claim_key_of (repeated_batch ! j) | j.
                              j < i \<and> reaches_duplicate_check test_now (repeated_batch ! j)})))"
    by blast
  have k0: "{claim_key_of (repeated_batch ! j) | j.
              j < (0::nat) \<and> reaches_duplicate_check test_now (repeated_batch ! j)} = {}"
    by simp
  have k1: "{claim_key_of (repeated_batch ! j) | j.
              j < (1::nat) \<and> reaches_duplicate_check test_now (repeated_batch ! j)}
            = {claim_key_of valid_claim}"
    by (rule repeated_batch_keys) simp_all
  have k2: "{claim_key_of (repeated_batch ! j) | j.
              j < length repeated_batch \<and> reaches_duplicate_check test_now (repeated_batch ! j)}
            = {claim_key_of valid_claim}"
    by (rule repeated_batch_keys) (simp_all add: repeated_batch_def)
  have e0: "fst (evaluate_claim test_str_float test_now valid_claim {}) =
      (APPROVED, [''Auto-approved: All criteria met''], 1)"
    using valid_claim_basic valid_claim_amount valid_claim_date
    by (simp add: evaluate_claim_rest valid_claim_doc) (simp add: valid_claim_def)
  from nth have "details (fst ?q) ! 0 =
            detail_of (repeated_batch ! 0)
              (fst (evaluate_claim test_str_float test_now (repeated_batch ! 0)
                      ({} \<union> {claim_key_of (repeated_batch ! j) | j.
                              j < 0 \<and> reaches_duplicate_check test_now (repeated_batch ! j)})))"
    by (simp add: repeated_batch_def)
  then have r0: "details (fst ?q) ! 0 =
      detail_of valid_claim (APPROVED, [''Auto-approved: All criteria met''], 1)"
    by (simp add: repeated_batch_def e0)
  from nth have "details (fst ?q) ! 1 =
            detail_of (repeated_batch ! 1)
              (fst (evaluate_claim test_str_float test_now (repeated_batch ! 1)
                      ({} \<union> {claim_key_of (repeated_batch ! j) | j.
                              j < 1 \<and> reaches_duplicate_check test_now (repeated_batch ! j)})))"
    by (simp add: repeated_batch_def)
  then have "details (fst ?q) ! 1 =
            detail_of valid_claim
              (fst (evaluate_claim test_str_float test_now valid_claim
                      ({} \<union> {claim_key_of valid_claim})))"
    by (simp only: k1) (simp add: repeated_batch_def)
  then have r1: "details (fst ?q) ! 1 =
      detail_of valid_claim
          (UNDER_REVIEW, [''Potential duplicate claim detected'', ''Requires manual review''],
           7 / 10)"
    by (simp only: valid_claim_again)
  from u have "snd ?q =
        {} \<union> {claim_key_of (repeated_batch ! j) | j.
               j < length repeated_batch
               \<and> reaches_duplicate_check test_now (repeated_batch ! j)}"
    by blast
  then have r2: "snd ?q = {claim_key_of valid_claim}"
    by (simp only: k2) simp
  from s z d r0 r1 r2 test_batch_length test_batch_amounts test_batch_distinct
    test_batch_complete
  show ?thesis
    by (intro conjI) simp_all
qed

section \<open>The provider identifier checksum\<close>

text \<open>
  Claim C5. The specification and the test \<open>test_valid_npi\<close> expect the identifier
  1234567893 to be accepted. The checksum of \<open>_luhn_check\<close> on its ten digits is 46, which is
  not a multiple of 10, so \<open>validate_provider_npi\<close> rejects it with "Invalid NPI checksum",
  as it rejects 1234567890. The identifier is valid under the checksum with the prefix 80840
  in front, which the code leaves out.
\<close>

theorem luhn_rejects_test_npi:
  "luhn_checksum ''1234567893'' = 46
   \<and> \<not> luhn_check ''1234567893''
   \<and> validate_provider_npi ''1234567893'' = (False, Some ''Invalid NPI checksum'')
   \<and> validate_provider_npi ''1234567890'' = (False, Some ''Invalid NPI checksum'')
   \<and> luhn_check ''808401234567893''"
  by code_simp

section \<open>Record construction\<close>

lemma validate_amount_cases:
  "validate_amount v =
     (if v \<le> 0 then Inl (ValueError ''Claim amount must be positive'')
      else if v > 1000000 then Inl (ValueError ''Claim amount exceeds maximum limit'')
      else Inr (round2 v))"
  by (simp add: validate_amount_def)

lemma new_BaseClaim_fails_fast:
  assumes "total_amount k \<le> 0 \<or> total_amount k > 1000000 \<or> service_date k > now"
  shows "\<exists>errors. new_BaseClaim now k = Inl errors \<and> errors \<noteq> []"
  using assms
  by (auto simp: new_BaseClaim_def Let_def total_amount_field_def service_date_field_def
      validate_amount_def validate_service_date_def errors_of_def split: sum.splits)

lemma new_BaseClaim_stored:
  assumes "new_BaseClaim now k = Inr c"
  shows "0 < total_amount k \<and> total_amount k \<le> 1000000 \<and> service_date k \<le> now
         \<and> total_amount c = round2 (total_amount k) \<and> service_date c = service_date k"
  using assms
  by (auto simp: new_BaseClaim_def Let_def total_amount_field_def service_date_field_def
      validate_amount_def validate_service_date_def errors_of_def
      split: sum.splits if_splits)

lemma new_BaseClaim_succeeds:
  assumes "0 < total_amount k" and "total_amount k \<le> 1000000" and "service_date k \<le> now"
    and "1 \<le> length (patient_name k)" and "length (patient_name k) \<le> 200"
    and "description_errors (description k) = []"
  shows "new_BaseClaim now k = Inr (k\<lparr>total_amount := round2 (total_amount k)\<rparr>)"
proof -
  from assms(4) have "patient_name k \<noteq> []"
    by auto
  with assms show ?thesis
    by (simp add: new_BaseClaim_def Let_def total_amount_field_def service_date_field_def
        validate_amount_def validate_service_date_def errors_of_def patient_name_errors_def)
qed

text \<open>
  Claim C8. Construction fails for an amount that is not positive or above 1,000,000 and for
  a service date after the clock reading, and otherwise stores the amount rounded to two
  decimals (the lemmas above). The stored amount is not always positive: the check
  comes before the rounding, so the amount 0.00390625 is accepted and stored as 0.0, and
  the record reaches the engine, which answers \<open>pending_info\<close> because the amount 0.0 counts
  as missing.
\<close>

theorem tiny_amount_stored_as_zero:
  "0 < total_amount tiny_amount_claim
   \<and> validate_amount (total_amount tiny_amount_claim) = Inr 0
   \<and> new_BaseClaim test_now tiny_amount_claim = Inr (tiny_amount_claim\<lparr>total_amount := 0\<rparr>)
   \<and> \<not> 0 < total_amount (tiny_amount_claim\<lparr>total_amount := 0\<rparr>)
   \<and> status_of (evaluate_claim test_str_float test_now
                  (tiny_amount_claim\<lparr>total_amount := 0\<rparr>) {}) = PENDING_INFO"
  by code_simp

section \<open>The date-range validator\<close>

lemma not_leap_2014: "\<not> is_leap 2014"
  by (simp add: is_leap_def)

lemma leap_minus_ten: "is_leap y \<Longrightarrow> \<not> is_leap (y - 10)"
proof -
  assume "is_leap y"
  then have "y mod 4 = 0"
    unfolding is_leap_def by (auto split: if_splits)
  then have d: "4 dvd y"
    by (simp add: mod_eq_0_iff_dvd)
  have n: "\<not> 4 dvd (y - 10)"
  proof
    assume "4 dvd (y - 10)"
    with d have "4 dvd (y - (y - 10))"
      by (rule dvd_diff)
    then show False by simp
  qed
  have "\<not> 400 dvd (y - 10)"
  proof
    assume "400 dvd (y - 10)"
    moreover have "(4::int) dvd 400" by simp
    ultimately have "4 dvd (y - 10)"
      by (rule dvd_trans [rotated])
    with n show False ..
  qed
  with n show ?thesis
    by (simp add: is_leap_def mod_eq_0_iff_dvd)
qed

lemma leap_day_always_raises:
  assumes "month now1 = 2" and "day now1 = 29" and "is_leap (int (year now2))"
    and "\<not> dt_less end_date start_date"
  shows "\<exists>e. validate_date_range now1 now2 now3 start_date end_date = Inl e"
proof -
  from assms(3) have "\<not> is_leap (int (year now2) - 10)"
    by (rule leap_minus_ten)
  with assms(1,2,4) show ?thesis
    by (simp add: validate_date_range_def replace_year_def days_in_month_def)
qed

text \<open>
  Claim C9. \<open>validate_date_range\<close> does not return a pair at every clock reading: on
  2024-02-29, for a start date that is not after the end date, \<open>replace(year=2014)\<close> asks
  for 2014-02-29 and raises \<open>ValueError\<close>. By \<open>leap_day_always_raises\<close> the same happens on
  every 29 February.
\<close>

theorem validate_date_range_raises_on_leap_day:
  "validate_date_range leap_day_noon leap_day_noon leap_day_noon new_year_2024 february_2024
     = Inl (ValueError ''day is out of range for month'')"
  by (simp add: validate_date_range_def replace_year_def days_in_month_def not_leap_2014
      dt_less_def fields_of_def leap_day_noon_def new_year_2024_def february_2024_def)

section \<open>What an evaluation changes\<close>

text \<open>
  Claim C10. \<open>evaluate_claim\<close> leaves every claim object as it was, its status included, and
  leaves \<open>decision_history\<close> as it was: the state after the call is the state before with
  \<open>processed_claims\<close> replaced, and the new ledger is the old one or the old one with the key
  of the evaluated claim added. The decision is the returned value alone.
\<close>

theorem evaluate_claim_frame:
  "objects (snd (DecisionEngine_evaluate_claim f now ref s)) = objects s
   \<and> decision_history (snd (DecisionEngine_evaluate_claim f now ref s)) = decision_history s
   \<and> snd (DecisionEngine_evaluate_claim f now ref s)
       = s\<lparr>rules_processed_claims :=
             rules_processed_claims (snd (DecisionEngine_evaluate_claim f now ref s))\<rparr>
   \<and> (rules_processed_claims (snd (DecisionEngine_evaluate_claim f now ref s))
         = rules_processed_claims s
      \<or> rules_processed_claims (snd (DecisionEngine_evaluate_claim f now ref s))
         = insert (claim_key_of (objects s ref)) (rules_processed_claims s))
   \<and> fst (DecisionEngine_evaluate_claim f now ref s)
       = fst (evaluate_claim f now (objects s ref) (rules_processed_claims s))"
proof -
  have "DecisionEngine_evaluate_claim f now ref s =
          (fst (evaluate_claim f now (objects s ref) (rules_processed_claims s)),
           s\<lparr>rules_processed_claims :=
               snd (evaluate_claim f now (objects s ref) (rules_processed_claims s))\<rparr>)"
    by (simp add: DecisionEngine_evaluate_claim_def split: prod.splits)
  then show ?thesis
    by (simp add: evaluate_claim_ledger)
qed

text \<open>
  The fixture has the status \<open>draft\<close>; its evaluation returns \<open>approved\<close>, and the object
  still has the status \<open>draft\<close>.
\<close>

theorem evaluate_claim_frame_witness:
  "fst (fst (DecisionEngine_evaluate_claim test_str_float test_now 0 test_state)) = APPROVED
   \<and> status (objects (snd (DecisionEngine_evaluate_claim test_str_float test_now 0 test_state)) 0)
       = DRAFT
   \<and> objects (snd (DecisionEngine_evaluate_claim test_str_float test_now 0 test_state)) 0
       = valid_claim
   \<and> decision_history (snd (DecisionEngine_evaluate_claim test_str_float test_now 0 test_state))
       = []"
proof -
  note t = evaluate_claim_frame [of test_str_float test_now 0 test_state]
  have e: "evaluate_claim test_str_float test_now valid_claim {} =
     ((APPROVED, [''Auto-approved: All criteria met''], 1), {claim_key_of valid_claim})"
    using valid_claim_basic valid_claim_amount valid_claim_date
    by (simp add: evaluate_claim_rest valid_claim_doc) (simp add: valid_claim_def)
  have o: "objects test_state = (\<lambda>ref. valid_claim)" "rules_processed_claims test_state = {}"
    "decision_history test_state = []"
    by (simp_all add: test_state_def)
  from t have "fst (DecisionEngine_evaluate_claim test_str_float test_now 0 test_state)
       = fst (evaluate_claim test_str_float test_now valid_claim {})"
    by (simp only: o)
  then have 1: "fst (fst (DecisionEngine_evaluate_claim test_str_float test_now 0 test_state))
                 = APPROVED"
    by (simp add: e)
  from t have 2: "objects (snd (DecisionEngine_evaluate_claim test_str_float test_now 0
                    test_state)) = (\<lambda>ref. valid_claim)"
    by (simp only: o)
  from t have 3: "decision_history (snd (DecisionEngine_evaluate_claim test_str_float test_now 0
                    test_state)) = []"
    by (simp only: o)
  have 4: "status valid_claim = DRAFT"
    by (simp add: valid_claim_def)
  from 1 2 3 4 show ?thesis
    by simp
qed

end
